theory Spec2Isabelle
  imports Complex_Main
begin

section \<open>Rate limiter (utils/rateLimiter.js)\<close>

text \<open>
  The limiter keeps one bucket per key in a module-level \<open>Map\<close>. All quantities are
  JavaScript numbers holding integers (\<open>Date.now()\<close> milliseconds, request counts), so
  they are modelled as \<open>int\<close>: \<open>Math.floor (a / b)\<close> is \<open>a div b\<close> (HOL's \<open>div\<close> on
  \<open>int\<close> rounds towards minus infinity, as \<open>Math.floor\<close> does) and
  \<open>Math.ceil (a / b)\<close> is \<open>- ((- a) div b)\<close>.
\<close>

record bucket =
  tokens :: int
  lastRefill :: int

type_synonym rate_store = "string \<rightharpoonup> bucket"

record rate_limiter =
  maxRequests :: int
  windowMs :: int

record rate_result =
  allowed :: bool
  remaining :: int
  resetTime :: int
  limit :: int
  retryAfter :: "int option"

text \<open>
  The constructor: \<open>options.maxRequests || config.app.rateLimitPerMinute\<close> and
  \<open>options.windowMs || 60000\<close>. A missing option and the falsy number \<open>0\<close> both fall
  through to the default.
\<close>

definition js_or_default :: "int option \<Rightarrow> int \<Rightarrow> int" where
  "js_or_default opt dflt = (case opt of None \<Rightarrow> dflt | Some v \<Rightarrow> if v = 0 then dflt else v)"

definition new_RateLimiter :: "int option \<Rightarrow> int option \<Rightarrow> int \<Rightarrow> rate_limiter" where
  "new_RateLimiter optMaxRequests optWindowMs rateLimitPerMinute =
     \<lparr>maxRequests = js_or_default optMaxRequests rateLimitPerMinute,
      windowMs = js_or_default optWindowMs 60000\<rparr>"

definition math_ceil_div :: "int \<Rightarrow> int \<Rightarrow> int" where
  "math_ceil_div a b = - ((- a) div b)"

text \<open>
  \<open>checkRateLimit\<close>, with the key already produced by \<open>keyGenerator\<close> and the clock
  value \<open>now\<close> read once at the top, as in the source. The bucket object is mutated in
  place there; here the updated bucket is written back to the store.
\<close>

definition checkRateLimit ::
  "rate_limiter \<Rightarrow> int \<Rightarrow> string \<Rightarrow> rate_store \<Rightarrow> rate_result \<times> rate_store" where
  "checkRateLimit L now key store =
     (let bucket0 = (case store key of
                       Some b \<Rightarrow> b
                     | None \<Rightarrow> \<lparr>tokens = maxRequests L, lastRefill = now\<rparr>);
          timePassed = now - lastRefill bucket0;
          tokensToAdd = (timePassed div windowMs L) * maxRequests L;
          bucket1 = (if tokensToAdd > 0
                     then \<lparr>tokens = min (maxRequests L) (tokens bucket0 + tokensToAdd),
                           lastRefill = now\<rparr>
                     else bucket0)
      in if tokens bucket1 > 0
         then (let bucket2 = bucket1\<lparr>tokens := tokens bucket1 - 1\<rparr>
               in (\<lparr>allowed = True, remaining = tokens bucket2,
                    resetTime = lastRefill bucket2 + windowMs L,
                    limit = maxRequests L, retryAfter = None\<rparr>,
                   store(key \<mapsto> bucket2)))
         else (\<lparr>allowed = False, remaining = 0,
                 resetTime = lastRefill bucket1 + windowMs L,
                 limit = maxRequests L,
                 retryAfter = Some (math_ceil_div (lastRefill bucket1 + windowMs L - now) 1000)\<rparr>,
               store(key \<mapsto> bucket1)))"

text \<open>A finite sequence of calls, each with its clock value and key, threaded through the store.\<close>

fun run_calls :: "rate_limiter \<Rightarrow> (int \<times> string) list \<Rightarrow> rate_store \<Rightarrow> rate_result list \<times> rate_store" where
  "run_calls L [] store = ([], store)"
| "run_calls L ((now, key) # rest) store =
     (let (r, store') = checkRateLimit L now key store;
          (rs, store'') = run_calls L rest store'
      in (r # rs, store''))"

text \<open>The data-model invariant of the spec, for every bucket of a store.\<close>

definition store_ok :: "rate_limiter \<Rightarrow> rate_store \<Rightarrow> bool" where
  "store_ok L store = (\<forall>key b. store key = Some b \<longrightarrow> 0 \<le> tokens b \<and> tokens b \<le> maxRequests L)"

section \<open>Strings\<close>

text \<open>
  JavaScript strings are modelled as \<open>string\<close> restricted to ASCII: \<open>toLowerCase\<close> maps
  \<open>A\<close>..\<open>Z\<close> to \<open>a\<close>..\<open>z\<close>, \<open>trim\<close> removes the ASCII white space (tab, line feed,
  vertical tab, form feed, carriage return, space) at both ends, and \<open>str_includes\<close> is the
  substring test \<open>String.prototype.includes\<close>.
\<close>

definition lower_char :: "char \<Rightarrow> char" where
  "lower_char c =
     (let n = (of_char c :: nat) in if 65 \<le> n \<and> n \<le> 90 then char_of (n + 32) else c)"

definition toLowerCase :: "string \<Rightarrow> string" where
  "toLowerCase s = map lower_char s"

definition is_space :: "char \<Rightarrow> bool" where
  "is_space c = (let n = (of_char c :: nat) in (9 \<le> n \<and> n \<le> 13) \<or> n = 32)"

definition trim :: "string \<Rightarrow> string" where
  "trim s = rev (dropWhile is_space (rev (dropWhile is_space s)))"

fun starts_with :: "string \<Rightarrow> string \<Rightarrow> bool" where
  "starts_with s [] = True"
| "starts_with [] (p # ps) = False"
| "starts_with (c # cs) (p # ps) = (c = p \<and> starts_with cs ps)"

fun str_includes :: "string \<Rightarrow> string \<Rightarrow> bool" where
  "str_includes [] sub = (sub = [])"
| "str_includes (c # cs) sub = (starts_with (c # cs) sub \<or> str_includes cs sub)"

section \<open>Error classification (hooks/useErrorHandler.js, utils/api.js)\<close>

text \<open>
  A value thrown by an operation. \<open>processError\<close> and \<open>isRetryableError\<close> distinguish a
  string, an \<open>Error\<close> instance, an \<open>ApiError\<close> instance (a subclass of \<open>Error\<close> that
  carries its own \<open>retryable\<close> flag), a plain object and any other primitive; they read
  the fields \<open>message\<close>, \<open>name\<close>, \<open>status\<close> and \<open>code\<close>, each of which may be
  absent. For a thrown string the text is kept in \<open>e_message\<close>. The values \<open>null\<close> and
  \<open>undefined\<close> are not modelled.
\<close>

datatype thrown_kind = StringValue | ErrorInstance | ApiErrorInstance | PlainObject | PrimitiveValue

record thrown =
  e_kind :: thrown_kind
  e_message :: "string option"
  e_name :: "string option"
  e_status :: "int option"
  e_code :: "string option"
  e_retryable :: bool

text \<open>
  The error object \<open>processError\<close> builds: the fields the classifier and the executor
  use, and the two entries \<open>attempt\<close> and \<open>maxAttempts\<close> that the executor puts into
  the error's \<open>context\<close> (fields \<open>ctx_attempt\<close> and \<open>ctx_maxAttempts\<close>).
\<close>

record processed_error =
  message :: string
  name :: "string option"
  status :: "int option"
  category :: string
  retryable :: bool
  ctx_attempt :: "int option"
  ctx_maxAttempts :: "int option"

definition categorizeError :: "string \<Rightarrow> string option \<Rightarrow> int option \<Rightarrow> string" where
  "categorizeError error_message error_name error_status =
     (let message = toLowerCase error_message;
          name = toLowerCase (case error_name of None \<Rightarrow> [] | Some n \<Rightarrow> n)
      in if str_includes message ''configuration'' \<or> str_includes message ''api key''
            \<or> str_includes message ''not configured'' \<or> str_includes message ''missing credentials''
         then ''configuration''
         else if str_includes message ''validation'' \<or> str_includes message ''invalid''
            \<or> str_includes message ''required'' \<or> str_includes message ''bad request''
            \<or> error_status = Some 400
         then ''validation''
         else if str_includes message ''unauthorized'' \<or> str_includes message ''authentication''
            \<or> error_status = Some 401 \<or> error_status = Some 403
         then ''authentication''
         else if str_includes message ''rate limit'' \<or> str_includes message ''too many requests''
            \<or> error_status = Some 429
         then ''rate_limit''
         else if str_includes message ''network'' \<or> str_includes message ''connection''
            \<or> str_includes message ''timeout'' \<or> str_includes name ''network''
            \<or> error_status = Some 0
         then ''network''
         else if str_includes message ''server'' \<or> str_includes message ''internal''
            \<or> (case error_status of None \<Rightarrow> False | Some st \<Rightarrow> 500 \<le> st \<and> st < 600)
         then ''server''
         else if (case error_status of None \<Rightarrow> False | Some st \<Rightarrow> 400 \<le> st \<and> st < 500)
         then ''client''
         else ''unknown'')"

definition getRetryabilityForCategory :: "string \<Rightarrow> bool" where
  "getRetryabilityForCategory c = (c \<in> set [''network'', ''server'', ''rate_limit'', ''unknown''])"

text \<open>
  \<open>processError\<close>: a string becomes the message; of an \<open>Error\<close> instance only
  \<open>message\<close> and \<open>name\<close> are copied (so a \<open>status\<close> it carries is dropped); a plain
  object is spread over the base error, an absent \<open>message\<close> leaving the base message;
  anything else yields the base error. The category is then computed and the
  retryability derived from it, overwriting whatever the input carried. The presentation
  fields added by \<open>enhanceErrorByCategory\<close> (title, user message, severity) change none
  of the fields kept here and are left out.
\<close>

definition processError :: "thrown \<Rightarrow> int option \<Rightarrow> int option \<Rightarrow> processed_error" where
  "processError errorInput context_attempt context_maxAttempts =
     (let base_message = ''An unexpected error occurred'';
          (msg, nm, st) =
            (case e_kind errorInput of
               StringValue \<Rightarrow> (case e_message errorInput of None \<Rightarrow> [] | Some m \<Rightarrow> m, None, None)
             | ErrorInstance \<Rightarrow>
                 (case e_message errorInput of None \<Rightarrow> [] | Some m \<Rightarrow> m, e_name errorInput, None)
             | ApiErrorInstance \<Rightarrow>
                 (case e_message errorInput of None \<Rightarrow> [] | Some m \<Rightarrow> m, e_name errorInput, None)
             | PlainObject \<Rightarrow>
                 (case e_message errorInput of None \<Rightarrow> base_message | Some m \<Rightarrow> m,
                  e_name errorInput, e_status errorInput)
             | PrimitiveValue \<Rightarrow> (base_message, None, None));
          cat = categorizeError msg nm st
      in \<lparr>message = msg, name = nm, status = st, category = cat,
          retryable = getRetryabilityForCategory cat,
          ctx_attempt = context_attempt, ctx_maxAttempts = context_maxAttempts\<rparr>)"

text \<open>\<open>isRetryableError\<close> of utils/api.js.\<close>

definition isRetryableError :: "thrown \<Rightarrow> bool" where
  "isRetryableError error =
     (if e_kind error = ApiErrorInstance then e_retryable error
      else if e_code error = Some ''ECONNRESET'' \<or> e_code error = Some ''ETIMEDOUT''
            \<or> e_code error = Some ''ENOTFOUND'' then True
      else (case e_status error of
              None \<Rightarrow> False
            | Some st \<Rightarrow> if st = 0 then False else st \<in> set [408, 429, 500, 502, 503, 504]))"

section \<open>Backoff delays\<close>

text \<open>
  JavaScript numbers are modelled as \<open>real\<close> here: the delay is a product with a random
  fraction. \<open>Math.random()\<close> is a parameter \<open>random\<close> with \<open>0 \<le> random < 1\<close>, and
  \<open>Math.pow(2, attempt - 1)\<close> is \<open>2 powi (attempt - 1)\<close>.
\<close>

definition calculateBackoffDelay :: "int \<Rightarrow> real \<Rightarrow> real \<Rightarrow> real" where
  \<comment> \<open>hooks/useErrorHandler.js\<close>
  "calculateBackoffDelay attempt baseDelay random =
     (let exponentialDelay = baseDelay * 2 powi (attempt - 1);
          jitter = random * 0.1 * exponentialDelay
      in min (exponentialDelay + jitter) 30000)"

definition api_calculateBackoffDelay :: "int \<Rightarrow> real \<Rightarrow> real" where
  \<comment> \<open>utils/api.js\<close>
  "api_calculateBackoffDelay attempt baseDelay = min (baseDelay * 2 powi (attempt - 1)) 30000"

section \<open>Retry executors\<close>

text \<open>
  An operation is an effectful function: it is run on a world \<open>'w\<close> (whatever state it
  reads and changes: the network, a cache, a script of scheduled outcomes) and either
  throws (\<open>Inl\<close>) or returns (\<open>Inr\<close>), leaving a new world. An executor reports the
  outcome, the world it leaves, how many times it invoked the operation and the delays
  it slept between invocations.
\<close>

type_synonym ('w, 'a) operation = "'w \<Rightarrow> (thrown + 'a) \<times> 'w"

record ('e, 'a, 'w) run =
  outcome :: "'e + 'a"
  world :: 'w
  invocations :: nat
  delays :: "real list"

text \<open>
  \<open>executeWithErrorHandling\<close> of hooks/useErrorHandler.js: the loop
  \<open>while (currentAttempt <= operationMaxRetries)\<close>. A failure increments
  \<open>currentAttempt\<close>, is processed with the context
  \<open>{attempt: currentAttempt, maxAttempts: operationMaxRetries + 1}\<close>, and is thrown when
  the attempts are used up, the processed error is not retryable or \<open>autoRetry\<close> is off;
  otherwise the loop sleeps for the backoff delay and goes round again. When the loop is
  never entered the function returns \<open>undefined\<close> (\<open>Inr None\<close>). \<open>rnd k\<close> is the value of
  the \<open>k\<close>-th call of \<open>Math.random()\<close>. The hook's React state (\<open>error\<close>,
  \<open>isRetrying\<close>, \<open>retryCount\<close>) and its callbacks do not influence the loop and are
  left out.
\<close>

function exec_loop ::
  "('w, 'a) operation \<Rightarrow> int \<Rightarrow> bool \<Rightarrow> real \<Rightarrow> (nat \<Rightarrow> real) \<Rightarrow> int \<Rightarrow> 'w \<Rightarrow> nat \<Rightarrow> real list
     \<Rightarrow> (processed_error, 'a option, 'w) run" where
  "exec_loop operation maxRetries autoRetry baseDelay rnd currentAttempt w n ds =
     (if currentAttempt \<le> maxRetries
      then (case operation w of
              (Inr result, w') \<Rightarrow>
                \<lparr>outcome = Inr (Some result), world = w', invocations = n + 1, delays = ds\<rparr>
            | (Inl error, w') \<Rightarrow>
                (let currentAttempt' = currentAttempt + 1;
                     processedError = processError error (Some currentAttempt') (Some (maxRetries + 1))
                 in if currentAttempt' > maxRetries \<or> \<not> retryable processedError \<or> \<not> autoRetry
                    then \<lparr>outcome = Inl processedError, world = w', invocations = n + 1, delays = ds\<rparr>
                    else exec_loop operation maxRetries autoRetry baseDelay rnd currentAttempt' w' (n + 1)
                           (ds @ [calculateBackoffDelay currentAttempt' baseDelay (rnd (length ds))])))
      else \<lparr>outcome = Inr None, world = w, invocations = n, delays = ds\<rparr>)"
  by pat_completeness auto
termination
  by (relation "measure (\<lambda>(operation, maxRetries, autoRetry, baseDelay, rnd, currentAttempt, w, n, ds).
        nat (maxRetries + 1 - currentAttempt))") auto

definition executeWithErrorHandling ::
  "('w, 'a) operation \<Rightarrow> int \<Rightarrow> bool \<Rightarrow> real \<Rightarrow> (nat \<Rightarrow> real) \<Rightarrow> 'w
     \<Rightarrow> (processed_error, 'a option, 'w) run" where
  "executeWithErrorHandling operation maxRetries autoRetry baseDelay rnd w =
     exec_loop operation maxRetries autoRetry baseDelay rnd 0 w 0 []"

text \<open>
  \<open>retryWithBackoff\<close> of utils/api.js: the loop
  \<open>for (let attempt = 1; attempt <= maxAttempts; attempt++)\<close>, with \<open>lastError\<close> thrown
  after the loop (\<open>undefined\<close>, here \<open>None\<close>, when the loop was never entered).
\<close>

function retry_loop ::
  "('w, 'a) operation \<Rightarrow> int \<Rightarrow> real \<Rightarrow> int \<Rightarrow> thrown option \<Rightarrow> 'w \<Rightarrow> nat \<Rightarrow> real list
     \<Rightarrow> (thrown option, 'a, 'w) run" where
  "retry_loop fn maxAttempts baseDelay attempt lastError w n ds =
     (if attempt \<le> maxAttempts
      then (case fn w of
              (Inr result, w') \<Rightarrow>
                \<lparr>outcome = Inr result, world = w', invocations = n + 1, delays = ds\<rparr>
            | (Inl error, w') \<Rightarrow>
                if \<not> isRetryableError error \<or> attempt = maxAttempts
                then \<lparr>outcome = Inl (Some error), world = w', invocations = n + 1, delays = ds\<rparr>
                else retry_loop fn maxAttempts baseDelay (attempt + 1) (Some error) w' (n + 1)
                       (ds @ [api_calculateBackoffDelay attempt baseDelay]))
      else \<lparr>outcome = Inl lastError, world = w, invocations = n, delays = ds\<rparr>)"
  by pat_completeness auto
termination
  by (relation "measure (\<lambda>(fn, maxAttempts, baseDelay, attempt, lastError, w, n, ds).
        nat (maxAttempts + 1 - attempt))") auto

definition retryWithBackoff ::
  "('w, 'a) operation \<Rightarrow> int \<Rightarrow> real \<Rightarrow> 'w \<Rightarrow> (thrown option, 'a, 'w) run" where
  "retryWithBackoff fn maxAttempts baseDelay w = retry_loop fn maxAttempts baseDelay 1 None w 0 []"

section \<open>Image generation hook (hooks/useImageGeneration.js)\<close>

text \<open>
  The hook keeps a cache of finished generations (\<open>generationHistoryRef\<close>, keyed by the
  trimmed, lower-cased prompt) and the \<open>AbortController\<close> of the request in flight
  (\<open>currentRequestRef\<close>). A generation result gets its \<open>timestamp\<close> when it is cached;
  a result returned fresh has none.
\<close>

record metadata =
  md_prompt :: string
  md_generation_time :: int
  md_model_version :: string

record generation_result =
  gr_images :: "string list"
  gr_metadata :: metadata
  gr_generationId :: string
  gr_timestamp :: "int option"

text \<open>
  What \<open>fetch\<close> can do: reject (a network failure, an abort), or respond. Of a response
  the hook reads \<open>ok\<close>, \<open>status\<close>, \<open>statusText\<close> and the body parsed by
  \<open>response.json()\<close>, which itself may throw. Of the body it reads \<open>error\<close>,
  \<open>imageUrls\<close> (\<open>None\<close> when absent or not an array), \<open>metadata\<close> and
  \<open>generationId\<close>.
\<close>

record json_body =
  j_error :: "string option"
  j_imageUrls :: "string list option"
  j_metadata :: "metadata option"
  j_generationId :: "string option"

record response =
  r_ok :: bool
  r_status :: nat
  r_statusText :: string
  r_json :: "thrown + json_body"

datatype fetch_outcome = FetchRejects thrown | FetchResponds response

datatype request_status = InFlight | Aborted | Done

text \<open>
  The state the hook works on. \<open>requests\<close> lists every \<open>fetch\<close> issued so far, in order:
  its length is the number of times the underlying operation was invoked, and a request
  is identified by its index, which also stands for its \<open>AbortController\<close>. \<open>clock\<close>
  is the value \<open>Date.now()\<close> returns. The error handler's own React state is left out.
\<close>

record hook_world =
  s_prompt :: string
  s_images :: "string list"
  s_loading :: bool
  s_generationId :: "string option"
  s_metadata :: "metadata option"
  generationHistory :: "string \<rightharpoonup> generation_result"
  currentRequest :: "nat option"
  requests :: "request_status list"
  clock :: int

fun string_of_nat :: "nat \<Rightarrow> string" where
  "string_of_nat n =
     (if n < 10 then [char_of (48 + n)] else string_of_nat (n div 10) @ [char_of (48 + n mod 10)])"

definition js_Error :: "string \<Rightarrow> thrown" where
  \<comment> \<open>\<open>new Error(message)\<close>\<close>
  "js_Error msg = \<lparr>e_kind = ErrorInstance, e_message = Some msg, e_name = Some ''Error'',
     e_status = None, e_code = None, e_retryable = False\<rparr>"

definition abort_error :: thrown where
  \<comment> \<open>the \<open>DOMException\<close> an aborted \<open>fetch\<close> rejects with; the message text varies by browser\<close>
  "abort_error = \<lparr>e_kind = ErrorInstance, e_message = Some ''The operation was aborted.'',
     e_name = Some ''AbortError'', e_status = None, e_code = None, e_retryable = False\<rparr>"

definition normalizedPrompt :: "string \<Rightarrow> string" where
  "normalizedPrompt p = toLowerCase (trim p)"

definition getCachedResult ::
  "int \<Rightarrow> (string \<rightharpoonup> generation_result) \<Rightarrow> string \<Rightarrow> generation_result option" where
  "getCachedResult now history p =
     (case history (normalizedPrompt p) of
        None \<Rightarrow> None
      | Some cached \<Rightarrow>
          (case gr_timestamp cached of
             None \<Rightarrow> None
           | Some ts \<Rightarrow> if now - ts < 300000 then Some cached else None))"

definition cacheResult ::
  "int \<Rightarrow> (string \<rightharpoonup> generation_result) \<Rightarrow> string \<Rightarrow> generation_result
     \<Rightarrow> (string \<rightharpoonup> generation_result)" where
  "cacheResult now history p result = history(normalizedPrompt p \<mapsto> result\<lparr>gr_timestamp := Some now\<rparr>)"

definition validatePrompt :: "string \<Rightarrow> string option" where
  \<comment> \<open>\<open>None\<close> is \<open>{valid: true}\<close>, \<open>Some error\<close> is \<open>{valid: false, error}\<close>\<close>
  "validatePrompt p =
     (let trimmedPrompt = trim p
      in if trimmedPrompt = [] then Some ''Please enter a prompt to generate images''
         else if length trimmedPrompt < 3 then Some ''Prompt must be at least 3 characters long''
         else if length trimmedPrompt > 500 then Some ''Prompt must be less than 500 characters''
         else None)"

text \<open>
  \<open>generateFn\<close> up to its \<open>await fetch(...)\<close>: abort the request in flight, if any, make
  a new controller current and issue the request.
\<close>

definition abort_request :: "nat \<Rightarrow> request_status list \<Rightarrow> request_status list" where
  "abort_request c rs = (if c < length rs \<and> rs ! c = InFlight then rs[c := Aborted] else rs)"

definition issue_request :: "hook_world \<Rightarrow> nat \<times> hook_world" where
  "issue_request w =
     (let rs = (case currentRequest w of None \<Rightarrow> requests w | Some c \<Rightarrow> abort_request c (requests w));
          ident = length rs
      in (ident, w\<lparr>requests := rs @ [InFlight], currentRequest := Some ident\<rparr>))"

text \<open>
  \<open>generateFn\<close> from the moment its \<open>fetch\<close> settles, at clock value \<open>t\<close>: an aborted
  request rejects with the abort error whatever the server did; a response that is not
  \<open>ok\<close>, a body that does not parse and a body without an \<open>imageUrls\<close> array throw; a
  good response updates the state and is cached. The \<open>finally\<close> block clears
  \<open>currentRequestRef\<close> when it still holds this request's controller.
\<close>

definition settle_request ::
  "string \<Rightarrow> nat \<Rightarrow> fetch_outcome \<Rightarrow> int \<Rightarrow> hook_world \<Rightarrow> (thrown + generation_result) \<times> hook_world" where
  "settle_request promptToUse ident served t w =
     (let aborted = (ident < length (requests w) \<and> requests w ! ident = Aborted);
          actual = (if aborted then FetchRejects abort_error else served);
          w1 = w\<lparr>clock := t,
                 requests := (if aborted then requests w else (requests w)[ident := Done])\<rparr>;
          finally = (\<lambda>v. if currentRequest v = Some ident then v\<lparr>currentRequest := None\<rparr> else v);
          http_message = ''HTTP '' @ string_of_nat (case actual of FetchResponds r \<Rightarrow> r_status r | _ \<Rightarrow> 0)
                           @ '': '' @ (case actual of FetchResponds r \<Rightarrow> r_statusText r | _ \<Rightarrow> [])
      in case actual of
           FetchRejects e \<Rightarrow> (Inl e, finally w1)
         | FetchResponds r \<Rightarrow>
             if \<not> r_ok r
             then (Inl (js_Error (case r_json r of
                                    Inl _ \<Rightarrow> http_message
                                  | Inr errorData \<Rightarrow>
                                      (case j_error errorData of
                                         None \<Rightarrow> http_message
                                       | Some m \<Rightarrow> if m = [] then http_message else m))),
                   finally w1)
             else (case r_json r of
                     Inl e \<Rightarrow> (Inl e, finally w1)
                   | Inr result \<Rightarrow>
                       (case j_imageUrls result of
                          None \<Rightarrow> (Inl (js_Error ''Invalid response format from image generation API''),
                                   finally w1)
                        | Some urls \<Rightarrow>
                            (let generationResult =
                                   \<lparr>gr_images = urls,
                                    gr_metadata = (case j_metadata result of
                                                     Some md \<Rightarrow> md
                                                   | None \<Rightarrow> \<lparr>md_prompt = promptToUse,
                                                              md_generation_time = t,
                                                              md_model_version = ''unknown''\<rparr>),
                                    gr_generationId = (case j_generationId result of
                                                         None \<Rightarrow> ''gen_'' @ string_of_nat (nat t)
                                                       | Some g \<Rightarrow> if g = [] then ''gen_'' @ string_of_nat (nat t)
                                                                  else g),
                                    gr_timestamp = None\<rparr>;
                                 w2 = w1\<lparr>s_images := gr_images generationResult,
                                         s_metadata := Some (gr_metadata generationResult),
                                         s_generationId := Some (gr_generationId generationResult),
                                         s_loading := False\<rparr>;
                                 w3 = w2\<lparr>generationHistory :=
                                           cacheResult t (generationHistory w2) promptToUse generationResult\<rparr>
                             in (Inr generationResult, finally w3)))))"

text \<open>
  \<open>generateFn\<close> run without interruption: the request is issued and settles with what the
  server does for it. \<open>server ident\<close> is the outcome of request \<open>ident\<close> and the clock
  value at which it arrives.
\<close>

definition generateFn ::
  "(nat \<Rightarrow> fetch_outcome \<times> int) \<Rightarrow> string \<Rightarrow> (hook_world, generation_result) operation" where
  "generateFn server promptToUse w =
     (let (ident, w1) = issue_request w;
          (served, t) = server ident
      in settle_request promptToUse ident served t w1)"

text \<open>
  \<open>generateImages\<close> up to the call of the executor: choose the prompt
  (\<open>promptOverride || state.prompt\<close>), validate it, look in the cache. The result is
  either the value returned early (\<open>Inl\<close>: \<open>undefined\<close> after a failed validation, or
  the cached result) or the prompt to generate for (\<open>Inr\<close>).
\<close>

definition begin_generation ::
  "string option \<Rightarrow> bool \<Rightarrow> hook_world \<Rightarrow> (generation_result option + string) \<times> hook_world" where
  "begin_generation promptOverride forceRegenerate w =
     (let promptToUse = (case promptOverride of
                           None \<Rightarrow> s_prompt w
                         | Some p \<Rightarrow> if p = [] then s_prompt w else p)
      in case validatePrompt promptToUse of
           Some validation_error \<Rightarrow> (Inl None, w)
         | None \<Rightarrow>
             (case getCachedResult (clock w) (generationHistory w) promptToUse of
                Some cached \<Rightarrow>
                  if \<not> forceRegenerate
                  then (Inl (Some cached),
                        w\<lparr>s_images := gr_images cached, s_metadata := Some (gr_metadata cached),
                          s_generationId := Some (gr_generationId cached), s_prompt := promptToUse\<rparr>)
                  else (Inr promptToUse, w\<lparr>s_loading := True, s_prompt := promptToUse\<rparr>)
              | None \<Rightarrow> (Inr promptToUse, w\<lparr>s_loading := True, s_prompt := promptToUse\<rparr>)))"

text \<open>
  \<open>generateImages\<close>, run without interruption. \<open>maxRetries\<close> and \<open>baseDelay\<close> are the
  hook's options, handed to the error handler; the handler's \<open>onError\<close> callback switches
  \<open>loading\<close> off when the executor gives up.
\<close>

definition generateImages ::
  "(nat \<Rightarrow> fetch_outcome \<times> int) \<Rightarrow> int \<Rightarrow> real \<Rightarrow> (nat \<Rightarrow> real) \<Rightarrow> string option \<Rightarrow> bool \<Rightarrow> hook_world
     \<Rightarrow> (processed_error, generation_result option, hook_world) run" where
  "generateImages server maxRetries baseDelay rnd promptOverride forceRegenerate w =
     (case begin_generation promptOverride forceRegenerate w of
        (Inl early, w') \<Rightarrow> \<lparr>outcome = Inr early, world = w', invocations = 0, delays = []\<rparr>
      | (Inr promptToUse, w') \<Rightarrow>
          (let r = executeWithErrorHandling (generateFn server promptToUse) maxRetries True baseDelay rnd w'
           in case outcome r of
                Inl e \<Rightarrow> r\<lparr>world := (world r)\<lparr>s_loading := False\<rparr>\<rparr>
              | Inr v \<Rightarrow> r))"

text \<open>
  Interleaved callers. JavaScript runs each piece of synchronous code to its next
  \<open>await\<close> without interruption, so the hook's behaviour under concurrent callers is a
  sequence of such pieces: a caller entering \<open>generateImages\<close> and running to its
  \<open>fetch\<close> (\<open>Start\<close>), the retry loop of a caller invoking \<open>generateFn\<close> again after a
  backoff (\<open>Retry\<close>), a request settling and its caller running on (\<open>Settle\<close>), and
  \<open>cancelGeneration\<close> (\<open>Cancel\<close>).
\<close>

datatype event =
    Start "string option" bool
  | Retry
  | Settle string nat fetch_outcome int
  | Cancel

definition cancelGeneration :: "hook_world \<Rightarrow> hook_world" where
  "cancelGeneration w =
     (case currentRequest w of
        None \<Rightarrow> w\<lparr>s_loading := False\<rparr>
      | Some c \<Rightarrow> w\<lparr>requests := abort_request c (requests w), currentRequest := None, s_loading := False\<rparr>)"

fun step :: "hook_world \<Rightarrow> event \<Rightarrow> hook_world" where
  "step w (Start promptOverride forceRegenerate) =
     (case begin_generation promptOverride forceRegenerate w of
        (Inl early, w') \<Rightarrow> w'
      | (Inr promptToUse, w') \<Rightarrow> snd (issue_request w'))"
| "step w Retry = snd (issue_request w)"
| "step w (Settle promptToUse ident served t) =
     (if ident < length (requests w) \<and> requests w ! ident \<noteq> Done
      then snd (settle_request promptToUse ident served t w)
      else w)"
| "step w Cancel = cancelGeneration w"

definition run_events :: "hook_world \<Rightarrow> event list \<Rightarrow> hook_world" where
  "run_events w evs = foldl step w evs"

definition in_flight :: "hook_world \<Rightarrow> nat list" where
  "in_flight w = filter (\<lambda>i. requests w ! i = InFlight) [0 ..< length (requests w)]"

definition initial_world :: hook_world where
  "initial_world = \<lparr>s_prompt = [], s_images = [], s_loading = False, s_generationId = None,
     s_metadata = None, generationHistory = Map.empty, currentRequest = None, requests = [],
     clock = 0\<rparr>"

text \<open>Every request in flight is the one held in \<open>currentRequestRef\<close>.\<close>

definition current_ok :: "hook_world \<Rightarrow> bool" where
  "current_ok w = (\<forall>i < length (requests w). requests w ! i = InFlight \<longrightarrow> currentRequest w = Some i)"

text \<open>
  The cache keys come from prompts that passed \<open>validatePrompt\<close>: a trimmed, lower-cased
  prompt of 3 to 500 characters.
\<close>

definition history_ok :: "(string \<rightharpoonup> generation_result) \<Rightarrow> bool" where
  "history_ok history = (\<forall>k c. history k = Some c \<longrightarrow> 3 \<le> length k \<and> length k \<le> 500)"

section \<open>Request deduplication (utils/performance.js)\<close>

text \<open>
  \<open>deduplicateRequests\<close> keeps the pending promise of each key. A call for a key with a
  pending promise returns that promise; any other call invokes the request function,
  and registers the new promise, which is removed again when it settles. Promises are
  identified by the number of the invocation that made them.
\<close>

record dedup_state =
  pendingRequests :: "string \<rightharpoonup> nat"
  request_count :: nat

definition deduplicatedRequest :: "string \<Rightarrow> dedup_state \<Rightarrow> nat \<times> dedup_state" where
  "deduplicatedRequest key st =
     (case pendingRequests st key of
        Some requestPromise \<Rightarrow> (requestPromise, st)
      | None \<Rightarrow>
          (request_count st,
           st\<lparr>pendingRequests := (pendingRequests st)(key \<mapsto> request_count st),
              request_count := request_count st + 1\<rparr>))"

definition request_settled :: "string \<Rightarrow> dedup_state \<Rightarrow> dedup_state" where
  \<comment> \<open>the \<open>finally\<close> callback: \<open>pendingRequests.delete(key)\<close>\<close>
  "request_settled key st = st\<lparr>pendingRequests := (pendingRequests st)(key := None)\<rparr>"

section \<open>Fan-out generation (pages/api/generate-image.js)\<close>








definition config_retryAttempts :: int where
  "config_retryAttempts = 3"

definition config_timeout :: nat where
  "config_timeout = 30000"

















text \<open>
  \<open>processApiError\<close> of the current route: the classifier the handler applies to what
  \<open>generateImagesWithRetry\<close> throws. It is a different chain from \<open>categorizeError\<close>:
  here \<open>unauthorized\<close> and \<open>api key\<close> are tested together, after \<open>timeout\<close> and
  \<open>network\<close>.
\<close>

record api_error =
  ae_message :: string
  ae_category :: string
  ae_retryable :: bool
  ae_status :: int

definition processApiError :: "thrown option \<Rightarrow> api_error" where
  "processApiError error =
     (case error of
        None \<Rightarrow> \<lparr>ae_message = ''Failed to generate images'', ae_category = ''server'',
                  ae_retryable = True, ae_status = 500\<rparr>
      | Some err \<Rightarrow>
          (let message = (case e_message err of None \<Rightarrow> [] | Some m \<Rightarrow> m);
               lowerMessage = toLowerCase message
           in if str_includes lowerMessage ''timeout'' \<or> str_includes lowerMessage ''network''
              then \<lparr>ae_message = ''Request timed out. Please try again.'', ae_category = ''network'',
                    ae_retryable = True, ae_status = 408\<rparr>
              else if str_includes lowerMessage ''unauthorized'' \<or> str_includes lowerMessage ''api key''
              then \<lparr>ae_message = ''Authentication failed. Please check API configuration.'',
                    ae_category = ''authentication'', ae_retryable = False, ae_status = 401\<rparr>
              else if str_includes lowerMessage ''rate limit'' \<or> str_includes lowerMessage ''quota''
              then \<lparr>ae_message = ''Rate limit exceeded. Please wait before trying again.'',
                    ae_category = ''rate_limit'', ae_retryable = True, ae_status = 429\<rparr>
              else if str_includes lowerMessage ''invalid'' \<or> str_includes lowerMessage ''validation''
              then \<lparr>ae_message = ''Invalid request. Please check your input.'',
                    ae_category = ''validation'', ae_retryable = True, ae_status = 400\<rparr>
              else if str_includes lowerMessage ''no images'' \<or> str_includes lowerMessage ''generation failed''
              then \<lparr>ae_message = ''Image generation failed. Please try a different prompt.'',
                    ae_category = ''generation'', ae_retryable = True, ae_status = 422\<rparr>
              else \<lparr>ae_message = (if message = [] then ''Failed to generate images'' else message),
                    ae_category = ''server'', ae_retryable = True,
                    ae_status = (case e_status err of
                                   None \<Rightarrow> 500
                                 | Some st \<Rightarrow> if st = 0 then 500 else st)\<rparr>))"

section \<open>Concrete inputs\<close>

text \<open>Thrown values used in the scenarios below.\<close>

abbreviation invalid_input_error :: thrown where
  "invalid_input_error \<equiv> \<lparr>e_kind = ErrorInstance, e_message = Some ''Invalid input'',
     e_name = Some ''Error'', e_status = None, e_code = None, e_retryable = False\<rparr>"

abbreviation unauthorized_api_key_error :: thrown where
  "unauthorized_api_key_error \<equiv> \<lparr>e_kind = PlainObject,
     e_message = Some ''Unauthorized: invalid api key'',
     e_name = None, e_status = None, e_code = None, e_retryable = False\<rparr>"




abbreviation good_server :: "nat \<Rightarrow> fetch_outcome \<times> int" where
  "good_server \<equiv> \<lambda>ident. (FetchResponds \<lparr>r_ok = True, r_status = 200, r_statusText = ''OK'',
     r_json = Inr \<lparr>j_error = None, j_imageUrls = Some [''https://example.com/a.jpg'', ''https://example.com/b.jpg''],
                   j_metadata = None, j_generationId = None\<rparr>\<rparr>, 5000)"










section \<open>Properties of the rate limiter\<close>
lemma store_ok_empty: "store_ok L Map.empty" by (simp add: store_ok_def)

lemma check_bucket:
  assumes "0 \<le> maxRequests L"
    and "\<And>b. s k = Some b \<Longrightarrow> 0 \<le> tokens b \<and> tokens b \<le> maxRequests L"
  shows "\<exists>b'. snd (checkRateLimit L now k s) = s(k \<mapsto> b') \<and> 0 \<le> tokens b' \<and> tokens b' \<le> maxRequests L"
proof (cases "s k")
  case None
  then show ?thesis using assms(1)
    by (auto simp add: checkRateLimit_def Let_def)
next
  case (Some b)
  with assms(2) have b: "0 \<le> tokens b" "tokens b \<le> maxRequests L" by auto
  show ?thesis
  proof (cases "(now - lastRefill b) div windowMs L * maxRequests L > 0")
    case True
    then show ?thesis using Some b assms(1)
      by (auto simp add: checkRateLimit_def Let_def min_def)
  next
    case False
    then show ?thesis using Some b assms(1)
      by (auto simp add: checkRateLimit_def Let_def)
  qed
qed

lemma check_ok: 
  assumes "0 \<le> maxRequests L" "store_ok L s" 
  shows "store_ok L (snd (checkRateLimit L now k s))"
proof -
  from assms(2) have "\<And>b. s k = Some b \<Longrightarrow> 0 \<le> tokens b \<and> tokens b \<le> maxRequests L"
    by (simp add: store_ok_def)
  from check_bucket[OF assms(1) this, where now=now] obtain b' where
    b': "snd (checkRateLimit L now k s) = s(k \<mapsto> b')" "0 \<le> tokens b'" "tokens b' \<le> maxRequests L"
    by blast
  show ?thesis unfolding b'(1) using assms(2) b'(2,3) by (simp add: store_ok_def)
qed

lemma run_ok: "0 \<le> maxRequests L \<Longrightarrow> store_ok L s \<Longrightarrow> store_ok L (snd (run_calls L calls s))"
proof (induction calls arbitrary: s)
  case Nil then show ?case by simp
next
  case (Cons c calls)
  obtain now k where c: "c = (now, k)" by (cases c)
  obtain r s' where r: "checkRateLimit L now k s = (r, s')" by (cases "checkRateLimit L now k s")
  have "store_ok L s'" using check_ok[OF Cons.prems, of now k] r by simp
  from Cons.IH[OF Cons.prems(1) this] show ?case using c r by (simp add: case_prod_unfold Let_def)
qed

text \<open>
  Claim C4. For every key and every finite sequence of \<open>checkRateLimit\<close> calls at
  arbitrary clock values, every bucket satisfies \<open>0 \<le> tokens \<le> capacity\<close> after every
  call (that is, after every prefix \<open>take n calls\<close> of the sequence). The capacity is
  not negative (the range \<open>0..capacity\<close> of the data model is not empty), the window is
  not zero (the constructor replaces a zero by its default) and the store the sequence
  starts from satisfies the invariant, as the empty store of a freshly loaded module does. Clock values are unconstrained: they may repeat or
  run backwards.
\<close>

theorem checkRateLimit_tokens_within_capacity:
  assumes "0 \<le> maxRequests L" and "windowMs L \<noteq> 0" and "store_ok L store"
    and "n \<le> length calls"
    and "snd (run_calls L (take n calls) store) key = Some b"
  shows "0 \<le> tokens b \<and> tokens b \<le> maxRequests L"
proof -
  have "store_ok L (snd (run_calls L (take n calls) store))"
    using assms(1,3) by (rule run_ok)
  with assms(5) show ?thesis by (simp add: store_ok_def)
qed

theorem checkRateLimit_tokens_within_capacity_witness:
  "0 \<le> maxRequests \<lparr>maxRequests = 3, windowMs = 60000\<rparr>
   \<and> windowMs \<lparr>maxRequests = 3, windowMs = 60000\<rparr> \<noteq> 0
   \<and> store_ok \<lparr>maxRequests = 3, windowMs = 60000\<rparr> Map.empty
   \<and> (4::nat) \<le> length [(0::int, ''k1''), (10, ''k1''), (20, ''k1''), (59999, ''k1''), (130000, ''k1'')]
   \<and> snd (run_calls \<lparr>maxRequests = 3, windowMs = 60000\<rparr>
        (take 4 [(0, ''k1''), (10, ''k1''), (20, ''k1''), (59999, ''k1''), (130000, ''k1'')]) Map.empty) ''k1''
       = Some \<lparr>tokens = 0, lastRefill = 0\<rparr>
   \<and> 0 \<le> tokens \<lparr>tokens = 0, lastRefill = 0\<rparr>
   \<and> tokens \<lparr>tokens = 0, lastRefill = 0\<rparr> \<le> maxRequests \<lparr>maxRequests = 3, windowMs = 60000\<rparr>"
  using checkRateLimit_tokens_within_capacity [of "\<lparr>maxRequests = 3, windowMs = 60000\<rparr>" Map.empty 4
      "[(0, ''k1''), (10, ''k1''), (20, ''k1''), (59999, ''k1''), (130000, ''k1'')]" "''k1''"
      "\<lparr>tokens = 0, lastRefill = 0\<rparr>"]
  by (simp add: store_ok_def checkRateLimit_def Let_def)

lemma div_window: "(d::int) < 60000 \<Longrightarrow> \<not> 0 < d div 60000 * 3"
proof -
  assume "d < 60000"
  then have "d div 60000 \<le> 0" by linarith
  then show ?thesis by simp
qed

text \<open>
  Claim C5. With \<open>maxRequests = 3\<close> and \<open>windowMs = 60000\<close>, four calls for a key that has
  no bucket yet, all made less than one window after the first, return
  \<open>allowed = true\<close> with \<open>remaining = 2, 1, 0\<close> and then \<open>allowed = false\<close> with a
  \<open>retryAfter\<close> strictly greater than 0.
\<close>

theorem three_allowed_then_denied:
  assumes "store key = None"
    and "t2 - t1 < 60000" and "t3 - t1 < 60000" and "t4 - t1 < 60000"
  shows "map (\<lambda>r. (allowed r, remaining r))
           (fst (run_calls (new_RateLimiter (Some 3) (Some 60000) rateLimitPerMinute)
                   [(t1, key), (t2, key), (t3, key), (t4, key)] store))
         = [(True, 2), (True, 1), (True, 0), (False, 0)]
       \<and> (\<exists>secs. retryAfter (fst (run_calls (new_RateLimiter (Some 3) (Some 60000) rateLimitPerMinute)
                   [(t1, key), (t2, key), (t3, key), (t4, key)] store) ! 3) = Some secs \<and> 0 < secs)"
proof -
  have c: "0 < math_ceil_div (t1 + 60000 - t4) 1000"
    using assms(4) unfolding math_ceil_div_def by linarith
  show ?thesis
    using assms div_window[OF assms(2)] div_window[OF assms(3)] div_window[OF assms(4)] c
    by (simp add: new_RateLimiter_def js_or_default_def checkRateLimit_def Let_def)
qed

theorem three_allowed_then_denied_witness:
  "(Map.empty :: rate_store) ''k1'' = None
   \<and> (1000::int) - 0 < 60000 \<and> (2000::int) - 0 < 60000 \<and> (59999::int) - 0 < 60000
   \<and> map (\<lambda>r. (allowed r, remaining r))
           (fst (run_calls (new_RateLimiter (Some 3) (Some 60000) 10)
                   [(0, ''k1''), (1000, ''k1''), (2000, ''k1''), (59999, ''k1'')] Map.empty))
         = [(True, 2), (True, 1), (True, 0), (False, 0)]
   \<and> (\<exists>secs. retryAfter (fst (run_calls (new_RateLimiter (Some 3) (Some 60000) 10)
                   [(0, ''k1''), (1000, ''k1''), (2000, ''k1''), (59999, ''k1'')] Map.empty) ! 3) = Some secs
          \<and> 0 < secs)"
  using three_allowed_then_denied [of Map.empty "''k1''" 1000 0 2000 59999 10]
  by simp

lemma denied_unchanged:
  assumes "0 < maxRequests L"
    and "store key = Some b" and "0 \<le> tokens b"
    and "checkRateLimit L now key store = (r, store')" and "\<not> allowed r"
  shows "store' = store \<and> tokens b = 0 \<and> resetTime r = lastRefill b + windowMs L
         \<and> retryAfter r = Some (math_ceil_div (lastRefill b + windowMs L - now) 1000)"
proof (cases "(now - lastRefill b) div windowMs L * maxRequests L > 0")
  case True
  then have "allowed r" using assms(1-4)
    by (auto simp add: checkRateLimit_def Let_def min_def split: if_splits)
  with assms(5) show ?thesis by simp
next
  case False
  then have "tokens b = 0 \<and> r = \<lparr>allowed = False, remaining = 0,
                 resetTime = lastRefill b + windowMs L,
                 limit = maxRequests L,
                 retryAfter = Some (math_ceil_div (lastRefill b + windowMs L - now) 1000)\<rparr>
       \<and> store' = store(key \<mapsto> b)"
    using assms(2-5)
    by (auto simp add: checkRateLimit_def Let_def split: if_splits)
  then show ?thesis using assms(2) by (simp add: map_upd_triv)
qed

lemma denied_has_bucket:
  assumes "0 < maxRequests L" and "checkRateLimit L now key store = (r, store')" and "\<not> allowed r"
  shows "\<exists>b. store key = Some b"
proof (cases "store key")
  case None
  then have "allowed r" using assms(1,2)
    by (auto simp add: checkRateLimit_def Let_def split: if_splits)
  with assms(3) show ?thesis by simp
next
  case (Some b) then show ?thesis by simp
qed

text \<open>
  Claim C10. A call that returns \<open>allowed = false\<close> leaves the store as it was: the
  bucket of the key still has \<open>tokens = 0\<close> and its \<open>lastRefill\<close> is the one the reported
  \<open>resetTime\<close> is computed from. Repeating the call at the same clock value returns the
  identical result (same \<open>resetTime\<close>, same \<open>retryAfter\<close>), and any later denied call
  reports the same \<open>resetTime\<close>: a denial never pushes the reset time into the future.
\<close>

theorem denied_call_leaves_bucket_unchanged:
  assumes "0 < maxRequests L" and "windowMs L \<noteq> 0" and "store_ok L store"
    and "checkRateLimit L now key store = (r, store')" and "\<not> allowed r"
  shows "store' = store
       \<and> (\<exists>b. store' key = Some b \<and> tokens b = 0 \<and> resetTime r = lastRefill b + windowMs L)
       \<and> checkRateLimit L now key store' = (r, store')
       \<and> (\<forall>now' r' store''. checkRateLimit L now' key store' = (r', store'') \<and> \<not> allowed r'
             \<longrightarrow> resetTime r' = resetTime r \<and> store'' = store)"
proof -
  from denied_has_bucket[OF assms(1,4,5)] obtain b where b: "store key = Some b" by blast
  with assms(3) have t: "0 \<le> tokens b" by (simp add: store_ok_def)
  from denied_unchanged[where L=L and store=store and key=key and b=b, OF assms(1) b t assms(4,5)]
  have u: "store' = store" "tokens b = 0" "resetTime r = lastRefill b + windowMs L" by simp_all
  have later: "resetTime r' = resetTime r \<and> store'' = store"
    if "checkRateLimit L now' key store' = (r', store'') \<and> \<not> allowed r'" for now' r' store''
    using denied_unchanged[where L=L and store=store and key=key and b=b and now=now'
        and r=r' and store'=store'', OF assms(1) b t] that u by simp
  show ?thesis using u b assms(4) later by blast
qed

theorem denied_call_leaves_bucket_unchanged_witness:
  "0 < maxRequests \<lparr>maxRequests = 3, windowMs = 60000\<rparr>
   \<and> windowMs \<lparr>maxRequests = 3, windowMs = 60000\<rparr> \<noteq> 0
   \<and> store_ok \<lparr>maxRequests = 3, windowMs = 60000\<rparr> [''k1'' \<mapsto> \<lparr>tokens = 0, lastRefill = 0\<rparr>]
   \<and> checkRateLimit \<lparr>maxRequests = 3, windowMs = 60000\<rparr> 2500 ''k1'' [''k1'' \<mapsto> \<lparr>tokens = 0, lastRefill = 0\<rparr>]
       = (\<lparr>allowed = False, remaining = 0, resetTime = 60000, limit = 3, retryAfter = Some 58\<rparr>,
          [''k1'' \<mapsto> \<lparr>tokens = 0, lastRefill = 0\<rparr>])
   \<and> \<not> allowed \<lparr>allowed = False, remaining = 0, resetTime = 60000, limit = 3, retryAfter = Some 58\<rparr>
   \<and> (\<exists>b. [''k1'' \<mapsto> \<lparr>tokens = 0, lastRefill = 0\<rparr>] ''k1'' = Some b \<and> tokens b = 0
          \<and> resetTime \<lparr>allowed = False, remaining = 0, resetTime = 60000, limit = 3, retryAfter = Some 58\<rparr>
              = lastRefill b + windowMs \<lparr>maxRequests = 3, windowMs = 60000\<rparr>)"
  using denied_call_leaves_bucket_unchanged [of "\<lparr>maxRequests = 3, windowMs = 60000\<rparr>"
      "[''k1'' \<mapsto> \<lparr>tokens = 0, lastRefill = 0\<rparr>]" 2500 "''k1''"
      "\<lparr>allowed = False, remaining = 0, resetTime = 60000, limit = 3, retryAfter = Some 58\<rparr>"
      "[''k1'' \<mapsto> \<lparr>tokens = 0, lastRefill = 0\<rparr>]"]
  by (simp add: store_ok_def checkRateLimit_def Let_def math_ceil_div_def)

section \<open>Properties of the classifier and the retry executors\<close>
declare retry_loop.simps [simp del] exec_loop.simps [simp del]

lemma retry_loop_bound:
  "attempt \<le> maxAttempts + 1 \<Longrightarrow>
   int (invocations (retry_loop fn maxAttempts baseDelay attempt lastError w n ds))
     \<le> int n + (maxAttempts + 1 - attempt)"
proof (induction fn maxAttempts baseDelay attempt lastError w n ds rule: retry_loop.induct)
  case (1 fn maxAttempts baseDelay attempt lastError w n ds)
  show ?case
  proof (cases "attempt \<le> maxAttempts")
    case False
    with "1.prems" show ?thesis by (simp add: retry_loop.simps)
  next
    case le: True
    obtain res w' where fw: "fn w = (res, w')" by (cases "fn w")
    show ?thesis
    proof (cases res)
      case (Inr result)
      with le fw show ?thesis by (simp add: retry_loop.simps)
    next
      case (Inl error)
      show ?thesis
      proof (cases "\<not> isRetryableError error \<or> attempt = maxAttempts")
        case True
        with le fw Inl show ?thesis by (auto simp add: retry_loop.simps)
      next
        case False
        then have "int (invocations (retry_loop fn maxAttempts baseDelay (attempt + 1) (Some error) w' (n + 1)
                       (ds @ [api_calculateBackoffDelay attempt baseDelay])))
              \<le> int (n + 1) + (maxAttempts + 1 - (attempt + 1))"
          using "1.IH"[OF le fw[symmetric] Inl] le by simp
        with le fw Inl False show ?thesis by (simp add: retry_loop.simps)
      qed
    qed
  qed
qed

lemma exec_loop_bound:
  "currentAttempt \<le> maxRetries + 1 \<Longrightarrow>
   int (invocations (exec_loop operation maxRetries autoRetry baseDelay rnd currentAttempt w n ds))
     \<le> int n + (maxRetries + 1 - currentAttempt)"
proof (induction operation maxRetries autoRetry baseDelay rnd currentAttempt w n ds rule: exec_loop.induct)
  case (1 operation maxRetries autoRetry baseDelay rnd currentAttempt w n ds)
  show ?case
  proof (cases "currentAttempt \<le> maxRetries")
    case False
    with "1.prems" show ?thesis by (simp add: exec_loop.simps)
  next
    case le: True
    obtain res w' where fw: "operation w = (res, w')" by (cases "operation w")
    show ?thesis
    proof (cases res)
      case (Inr result)
      with le fw show ?thesis by (simp add: exec_loop.simps)
    next
      case (Inl error)
      define pe where "pe = processError error (Some (currentAttempt + 1)) (Some (maxRetries + 1))"
      show ?thesis
      proof (cases "currentAttempt + 1 > maxRetries \<or> \<not> retryable pe \<or> \<not> autoRetry")
        case True
        with le fw Inl show ?thesis by (auto simp add: exec_loop.simps Let_def pe_def)
      next
        case False
        then have "int (invocations (exec_loop operation maxRetries autoRetry baseDelay rnd (currentAttempt + 1) w' (n + 1)
                           (ds @ [calculateBackoffDelay (currentAttempt + 1) baseDelay (rnd (length ds))])))
              \<le> int (n + 1) + (maxRetries + 1 - (currentAttempt + 1))"
          using "1.IH"[OF le fw[symmetric] Inl refl refl] le by (simp add: pe_def)
        with le fw Inl False show ?thesis by (simp add: exec_loop.simps Let_def pe_def)
      qed
    qed
  qed
qed

lemma retry_loop_first_failure:
  assumes "1 \<le> maxAttempts" and "fn w = (Inl error, w')" and "\<not> isRetryableError error"
  shows "retry_loop fn maxAttempts baseDelay 1 lastError w n ds
         = \<lparr>outcome = Inl (Some error), world = w', invocations = n + 1, delays = ds\<rparr>"
  using assms by (simp add: retry_loop.simps)

lemma exec_loop_first_failure:
  assumes "0 \<le> maxRetries" and "operation w = (Inl error, w')"
    and "\<not> retryable (processError error (Some 1) (Some (maxRetries + 1)))"
  shows "exec_loop operation maxRetries autoRetry baseDelay rnd 0 w n ds
         = \<lparr>outcome = Inl (processError error (Some 1) (Some (maxRetries + 1))),
            world = w', invocations = n + 1, delays = ds\<rparr>"
  using assms by (simp add: exec_loop.simps Let_def)

text \<open>
  Claim C3. For every operation and every \<open>maxAttempts \<ge> 1\<close>, the retry executor invokes
  the operation at most \<open>maxAttempts\<close> times, and exactly once when the first invocation
  fails with a non-retryable error. Both executors are covered. \<open>retryWithBackoff\<close> takes
  \<open>maxAttempts\<close> as its parameter. \<open>executeWithErrorHandling\<close> takes \<open>maxRetries\<close> and
  itself records \<open>maxAttempts = maxRetries + 1\<close> in the context of the error it throws, so
  it is run here with \<open>maxRetries = maxAttempts - 1\<close>; non-retryable means
  \<open>isRetryableError\<close> is false for the first, and the processed error's \<open>retryable\<close> is
  false for the second.
\<close>

theorem retry_executor_invocations:
  assumes "1 \<le> maxAttempts"
  shows "int (invocations (retryWithBackoff operation maxAttempts baseDelay w)) \<le> maxAttempts
       \<and> (\<forall>error w'. operation w = (Inl error, w') \<and> \<not> isRetryableError error
            \<longrightarrow> invocations (retryWithBackoff operation maxAttempts baseDelay w) = 1)
       \<and> int (invocations (executeWithErrorHandling operation (maxAttempts - 1) autoRetry baseDelay rnd w))
            \<le> maxAttempts
       \<and> (\<forall>error w'. operation w = (Inl error, w')
              \<and> \<not> retryable (processError error (Some 1) (Some maxAttempts))
            \<longrightarrow> invocations (executeWithErrorHandling operation (maxAttempts - 1) autoRetry baseDelay rnd w) = 1
                \<and> outcome (executeWithErrorHandling operation (maxAttempts - 1) autoRetry baseDelay rnd w)
                    = Inl (processError error (Some 1) (Some maxAttempts)))"
proof -
  have a: "int (invocations (retryWithBackoff operation maxAttempts baseDelay w)) \<le> maxAttempts"
    using retry_loop_bound[of 1 maxAttempts operation baseDelay None w 0 "[]"] assms
    by (simp add: retryWithBackoff_def)
  have b: "invocations (retryWithBackoff operation maxAttempts baseDelay w) = 1"
    if "operation w = (Inl error, w')" "\<not> isRetryableError error" for error w'
    using retry_loop_first_failure[where fn=operation and w=w and error=error and w'=w'
        and maxAttempts=maxAttempts and baseDelay=baseDelay and lastError=None and n=0 and ds="[]"]
      assms that
    by (simp add: retryWithBackoff_def)
  have c: "int (invocations (executeWithErrorHandling operation (maxAttempts - 1) autoRetry baseDelay rnd w))
            \<le> maxAttempts"
    using exec_loop_bound[of 0 "maxAttempts - 1" operation autoRetry baseDelay rnd w 0 "[]"] assms
    by (simp add: executeWithErrorHandling_def)
  have d: "invocations (executeWithErrorHandling operation (maxAttempts - 1) autoRetry baseDelay rnd w) = 1
           \<and> outcome (executeWithErrorHandling operation (maxAttempts - 1) autoRetry baseDelay rnd w)
                    = Inl (processError error (Some 1) (Some maxAttempts))"
    if "operation w = (Inl error, w')" "\<not> retryable (processError error (Some 1) (Some maxAttempts))"
    for error w'
    using exec_loop_first_failure[of "maxAttempts - 1" operation w error w' autoRetry baseDelay rnd 0 "[]"]
      assms that
    by (simp add: executeWithErrorHandling_def)
  from a b c d show ?thesis by blast
qed

theorem retry_executor_invocations_witness:
  "(1::int) \<le> 3
   \<and> int (invocations (retryWithBackoff (\<lambda>w::nat. (Inl invalid_input_error :: thrown + string, Suc w)) 3 1000 0)) \<le> 3
   \<and> (\<lambda>w::nat. (Inl invalid_input_error :: thrown + string, Suc w)) 0 = (Inl invalid_input_error, 1)
   \<and> \<not> isRetryableError invalid_input_error
   \<and> \<not> retryable (processError invalid_input_error (Some 1) (Some 3))
   \<and> invocations (retryWithBackoff (\<lambda>w::nat. (Inl invalid_input_error :: thrown + string, Suc w)) 3 1000 0) = 1
   \<and> invocations (executeWithErrorHandling (\<lambda>w::nat. (Inl invalid_input_error :: thrown + string, Suc w))
        (3 - 1) True 1000 (\<lambda>k. 1 / 2) 0) = 1"
proof -
  have p: "\<not> retryable (processError invalid_input_error (Some 1) (Some 3))"
    by code_simp
  have q: "\<not> isRetryableError invalid_input_error"
    by (simp add: isRetryableError_def)
  show ?thesis
    using retry_executor_invocations [of 3 "\<lambda>w::nat. (Inl invalid_input_error :: thrown + string, Suc w)"
        1000 0 True "\<lambda>k. 1 / 2"] p q
    by auto
qed

lemma unauthorized_api_key_category:
  "categorizeError ''Unauthorized: invalid api key'' None None = ''configuration''"
  by code_simp

lemma unauthorized_api_key_processed:
  "processError unauthorized_api_key_error a m
   = \<lparr>message = ''Unauthorized: invalid api key'', name = None, status = None,
      category = ''configuration'', retryable = False, ctx_attempt = a, ctx_maxAttempts = m\<rparr>"
  by (simp add: processError_def unauthorized_api_key_category getRetryabilityForCategory_def)

text \<open>
  The server-side classifier \<open>processApiError\<close>, which is not the one the retry executors
  consult, does answer \<open>authentication\<close> for this message.
\<close>

lemma processApiError_unauthorized_api_key:
  "ae_category (processApiError (Some (js_Error ''Unauthorized: Invalid API key''))) = ''authentication''
   \<and> \<not> ae_retryable (processApiError (Some (js_Error ''Unauthorized: Invalid API key'')))"
  by code_simp

text \<open>
  Claim C2, as stated, fails: the classifier does not put
  \<open>{message: "Unauthorized: invalid api key"}\<close> into the category \<open>authentication\<close>.
  The lower-cased message contains \<open>api key\<close>, and the configuration test comes first.
\<close>

theorem classify_unauthorized_api_key_counterexample:
  "\<not> (category (processError unauthorized_api_key_error None None) = ''authentication''
      \<and> retryable (processError unauthorized_api_key_error None None) = False)"
  by (simp add: unauthorized_api_key_processed)

text \<open>
  Claim C2, amended. The classifier puts \<open>{message: "Unauthorized: invalid api key"}\<close>
  into the category \<open>configuration\<close> with \<open>retryable = false\<close>, and an operation that
  always fails with this error is invoked exactly once by either retry executor (for
  \<open>maxAttempts \<ge> 1\<close>).
\<close>

theorem classify_unauthorized_api_key:
  assumes "\<forall>w. fst (operation w) = Inl unauthorized_api_key_error" and "1 \<le> maxAttempts"
  shows "category (processError unauthorized_api_key_error a m) = ''configuration''
       \<and> retryable (processError unauthorized_api_key_error a m) = False
       \<and> invocations (retryWithBackoff operation maxAttempts baseDelay w) = 1
       \<and> invocations (executeWithErrorHandling operation (maxAttempts - 1) autoRetry baseDelay rnd w) = 1"
proof -
  obtain w' where ow: "operation w = (Inl unauthorized_api_key_error, w')"
    using assms(1) by (metis prod.collapse)
  have r: "\<not> isRetryableError unauthorized_api_key_error"
    by (simp add: isRetryableError_def)
  have "invocations (retryWithBackoff operation maxAttempts baseDelay w) = 1"
    using retry_loop_first_failure[where fn=operation and w=w and error=unauthorized_api_key_error
        and w'=w' and maxAttempts=maxAttempts and baseDelay=baseDelay and lastError=None and n=0
        and ds="[]"] assms(2) ow r
    by (simp add: retryWithBackoff_def)
  moreover have "invocations (executeWithErrorHandling operation (maxAttempts - 1) autoRetry baseDelay rnd w) = 1"
    using exec_loop_first_failure[where maxRetries="maxAttempts - 1" and operation=operation and w=w
        and error=unauthorized_api_key_error and w'=w' and autoRetry=autoRetry
        and baseDelay=baseDelay and rnd=rnd and n=0 and ds="[]"] assms(2) ow
    by (simp add: executeWithErrorHandling_def unauthorized_api_key_processed)
  ultimately show ?thesis by (simp add: unauthorized_api_key_processed)
qed

theorem classify_unauthorized_api_key_witness:
  "(\<forall>w::nat. fst ((\<lambda>w. (Inl unauthorized_api_key_error :: thrown + string, Suc w)) w)
       = Inl unauthorized_api_key_error)
   \<and> (1::int) \<le> 3
   \<and> category (processError unauthorized_api_key_error None None) = ''configuration''
   \<and> retryable (processError unauthorized_api_key_error None None) = False
   \<and> invocations (retryWithBackoff (\<lambda>w::nat. (Inl unauthorized_api_key_error :: thrown + string, Suc w))
        3 1000 0) = 1
   \<and> invocations (executeWithErrorHandling
        (\<lambda>w::nat. (Inl unauthorized_api_key_error :: thrown + string, Suc w)) (3 - 1) True 1000
        (\<lambda>k. 0) 0) = 1"
  using classify_unauthorized_api_key [of "\<lambda>w::nat. (Inl unauthorized_api_key_error :: thrown + string, Suc w)"
      3 None None 1000 0 True "\<lambda>k. 0"]
  by simp

lemma powi_attempt: "1 \<le> attempt \<Longrightarrow> (2::real) powi (attempt - 1) = 2 ^ nat (attempt - 1)"
  by (simp add: power_int_def)

text \<open>
  Claim C9, as stated, fails in its last part for a negative base delay: the hook's
  jitter is a fraction of the exponential delay and has its sign, so the delay is below
  \<open>baseDelay * 2 ^ (a - 1)\<close>. With \<open>baseDelay = -1000\<close>, \<open>a = 1\<close> and
  \<open>Math.random() = 0.5\<close> the delay is \<open>-1050\<close>.
\<close>

theorem backoff_delay_lower_bound_counterexample:
  "(- 1000 :: real) * 2 ^ nat (1 - 1) \<le> 30000
   \<and> calculateBackoffDelay 1 (- 1000) (1 / 2) < (- 1000) * 2 ^ nat (1 - 1)"
  by (simp add: calculateBackoffDelay_def Let_def)

text \<open>
  Claim C9, amended. For every attempt number \<open>a \<ge> 1\<close> and every base delay, the backoff
  delay is \<open>min (baseDelay * 2 ^ (a - 1) * (1 + j)) 30000\<close> for some jitter \<open>j\<close> with
  \<open>0 \<le> j \<le> 0.1\<close> (the hook's version draws \<open>j = random * 0.1\<close>, the version of
  utils/api.js has \<open>j = 0\<close>) and never exceeds 30000; for a base delay that is not
  negative it is never below \<open>baseDelay * 2 ^ (a - 1)\<close> when that product is at most
  30000 (the version of utils/api.js, which has no jitter, needs no sign condition). The
  lemmas \<open>executor_delays\<close> and \<open>retryWithBackoff_delays\<close> below show that the \<open>k\<close>-th
  delay an executor sleeps is this function at attempt \<open>k + 1\<close>.
\<close>

theorem backoff_delay_formula:
  assumes "1 \<le> attempt" and "0 \<le> random" and "random < 1"
  shows "(\<exists>j. 0 \<le> j \<and> j \<le> 0.1
            \<and> calculateBackoffDelay attempt baseDelay random
                = min (baseDelay * 2 ^ nat (attempt - 1) * (1 + j)) 30000)
       \<and> calculateBackoffDelay attempt baseDelay random \<le> 30000
       \<and> (0 \<le> baseDelay \<and> baseDelay * 2 ^ nat (attempt - 1) \<le> 30000
            \<longrightarrow> baseDelay * 2 ^ nat (attempt - 1) \<le> calculateBackoffDelay attempt baseDelay random)
       \<and> (\<exists>j. 0 \<le> j \<and> j \<le> 0.1
            \<and> api_calculateBackoffDelay attempt baseDelay
                = min (baseDelay * 2 ^ nat (attempt - 1) * (1 + j)) 30000)
       \<and> api_calculateBackoffDelay attempt baseDelay \<le> 30000
       \<and> (baseDelay * 2 ^ nat (attempt - 1) \<le> 30000
            \<longrightarrow> baseDelay * 2 ^ nat (attempt - 1) \<le> api_calculateBackoffDelay attempt baseDelay)"
proof -
  define e where "e = baseDelay * 2 ^ nat (attempt - 1)"
  have hook: "calculateBackoffDelay attempt baseDelay random = min (e + random * 0.1 * e) 30000"
    by (simp add: calculateBackoffDelay_def Let_def powi_attempt[OF assms(1)] e_def)
  have api: "api_calculateBackoffDelay attempt baseDelay = min e 30000"
    by (simp add: api_calculateBackoffDelay_def powi_attempt[OF assms(1)] e_def)
  have j: "0 \<le> random * 0.1" "random * 0.1 \<le> 0.1" using assms(2,3) by simp_all
  have eq: "e + random * 0.1 * e = e * (1 + random * 0.1)" by (simp add: algebra_simps)
  have c1: "\<exists>j. 0 \<le> j \<and> j \<le> 0.1 \<and> calculateBackoffDelay attempt baseDelay random = min (e * (1 + j)) 30000"
    using j hook eq by (intro exI[of _ "random * 0.1"]) simp
  have c2: "calculateBackoffDelay attempt baseDelay random \<le> 30000"
    by (simp add: hook)
  have c3: "e \<le> calculateBackoffDelay attempt baseDelay random" if "0 \<le> baseDelay" "e \<le> 30000"
  proof -
    have "0 \<le> e" using that(1) by (simp add: e_def)
    then have "0 \<le> random * 0.1 * e" using j(1) by simp
    then show ?thesis using that(2) by (simp add: hook)
  qed
  have c4: "\<exists>j. 0 \<le> j \<and> j \<le> 0.1 \<and> api_calculateBackoffDelay attempt baseDelay = min (e * (1 + j)) 30000"
    using api by (intro exI[of _ 0]) simp
  have c5: "api_calculateBackoffDelay attempt baseDelay \<le> 30000" by (simp add: api)
  have c6: "e \<le> api_calculateBackoffDelay attempt baseDelay" if "e \<le> 30000"
    using that by (simp add: api)
  show ?thesis using c1 c2 c3 c4 c5 c6 unfolding e_def by blast
qed

theorem backoff_delay_formula_witness:
  "(1::int) \<le> 3 \<and> (0::real) \<le> 1 / 2 \<and> (1 / 2 :: real) < 1
   \<and> calculateBackoffDelay 3 1000 (1 / 2) = 4200
   \<and> calculateBackoffDelay 3 1000 (1 / 2) \<le> 30000
   \<and> (0::real) \<le> 1000 \<and> (1000::real) * 2 ^ nat (3 - 1) \<le> 30000
   \<and> 1000 * 2 ^ nat (3 - 1) \<le> calculateBackoffDelay 3 1000 (1 / 2)
   \<and> api_calculateBackoffDelay 3 1000 = 4000
   \<and> api_calculateBackoffDelay 3 1000 \<le> 30000"
  using backoff_delay_formula [of 3 "1 / 2" 1000]
  by (simp add: calculateBackoffDelay_def api_calculateBackoffDelay_def Let_def)

lemma exec_loop_delays:
  "currentAttempt = int (length ds) \<Longrightarrow>
   (\<forall>k < length ds. ds ! k = calculateBackoffDelay (int k + 1) baseDelay (rnd k)) \<Longrightarrow>
   k < length (delays (exec_loop operation maxRetries autoRetry baseDelay rnd currentAttempt w n ds)) \<Longrightarrow>
   delays (exec_loop operation maxRetries autoRetry baseDelay rnd currentAttempt w n ds) ! k
     = calculateBackoffDelay (int k + 1) baseDelay (rnd k)"
proof (induction operation maxRetries autoRetry baseDelay rnd currentAttempt w n ds rule: exec_loop.induct)
  case (1 operation maxRetries autoRetry baseDelay rnd currentAttempt w n ds)
  show ?case
  proof (cases "currentAttempt \<le> maxRetries")
    case False
    with "1.prems" show ?thesis by (simp add: exec_loop.simps)
  next
    case le: True
    obtain res w' where fw: "operation w = (res, w')" by (cases "operation w")
    show ?thesis
    proof (cases res)
      case (Inr result)
      with le fw "1.prems" show ?thesis by (simp add: exec_loop.simps)
    next
      case (Inl error)
      define pe where "pe = processError error (Some (currentAttempt + 1)) (Some (maxRetries + 1))"
      show ?thesis
      proof (cases "currentAttempt + 1 > maxRetries \<or> \<not> retryable pe \<or> \<not> autoRetry")
        case True
        with le fw Inl "1.prems" show ?thesis by (auto simp add: exec_loop.simps Let_def pe_def)
      next
        case False
        let ?ds' = "ds @ [calculateBackoffDelay (currentAttempt + 1) baseDelay (rnd (length ds))]"
        have unf: "exec_loop operation maxRetries autoRetry baseDelay rnd currentAttempt w n ds
              = exec_loop operation maxRetries autoRetry baseDelay rnd (currentAttempt + 1) w' (n + 1) ?ds'"
          using le fw Inl False by (simp add: exec_loop.simps[of _ _ _ _ _ currentAttempt] Let_def pe_def)
        have inv: "\<forall>k < length ?ds'. ?ds' ! k = calculateBackoffDelay (int k + 1) baseDelay (rnd k)"
          using "1.prems"(1,2) by (auto simp add: nth_append less_Suc_eq)
        have "delays (exec_loop operation maxRetries autoRetry baseDelay rnd (currentAttempt + 1) w' (n + 1) ?ds') ! k
               = calculateBackoffDelay (int k + 1) baseDelay (rnd k)"
          using "1.IH"[OF le fw[symmetric] Inl refl refl _ _ inv] False "1.prems"(1,3) unf
          by (simp add: pe_def)
        then show ?thesis by (simp add: unf)
      qed
    qed
  qed
qed

lemma retry_loop_delays:
  "attempt = int (length ds) + 1 \<Longrightarrow>
   (\<forall>k < length ds. ds ! k = api_calculateBackoffDelay (int k + 1) baseDelay) \<Longrightarrow>
   k < length (delays (retry_loop fn maxAttempts baseDelay attempt lastError w n ds)) \<Longrightarrow>
   delays (retry_loop fn maxAttempts baseDelay attempt lastError w n ds) ! k
     = api_calculateBackoffDelay (int k + 1) baseDelay"
proof (induction fn maxAttempts baseDelay attempt lastError w n ds rule: retry_loop.induct)
  case (1 fn maxAttempts baseDelay attempt lastError w n ds)
  show ?case
  proof (cases "attempt \<le> maxAttempts")
    case False
    with "1.prems" show ?thesis by (simp add: retry_loop.simps)
  next
    case le: True
    obtain res w' where fw: "fn w = (res, w')" by (cases "fn w")
    show ?thesis
    proof (cases res)
      case (Inr result)
      with le fw "1.prems" show ?thesis by (simp add: retry_loop.simps)
    next
      case (Inl error)
      show ?thesis
      proof (cases "\<not> isRetryableError error \<or> attempt = maxAttempts")
        case True
        with le fw Inl "1.prems" show ?thesis by (auto simp add: retry_loop.simps)
      next
        case False
        let ?ds' = "ds @ [api_calculateBackoffDelay attempt baseDelay]"
        have unf: "retry_loop fn maxAttempts baseDelay attempt lastError w n ds
              = retry_loop fn maxAttempts baseDelay (attempt + 1) (Some error) w' (n + 1) ?ds'"
          using le fw Inl False by (simp add: retry_loop.simps[of _ _ _ attempt])
        have inv: "\<forall>k < length ?ds'. ?ds' ! k = api_calculateBackoffDelay (int k + 1) baseDelay"
          using "1.prems"(1,2) by (auto simp add: nth_append less_Suc_eq)
        have "delays (retry_loop fn maxAttempts baseDelay (attempt + 1) (Some error) w' (n + 1) ?ds') ! k
               = api_calculateBackoffDelay (int k + 1) baseDelay"
          using "1.IH"[OF le fw[symmetric] Inl _ _ inv] False "1.prems"(1,3) unf
          by simp
        then show ?thesis by (simp add: unf)
      qed
    qed
  qed
qed

lemma executor_delays:
  "k < length (delays (executeWithErrorHandling operation maxRetries autoRetry baseDelay rnd w)) \<Longrightarrow>
   delays (executeWithErrorHandling operation maxRetries autoRetry baseDelay rnd w) ! k
     = calculateBackoffDelay (int k + 1) baseDelay (rnd k)"
  unfolding executeWithErrorHandling_def by (rule exec_loop_delays) simp_all

lemma retryWithBackoff_delays:
  "k < length (delays (retryWithBackoff fn maxAttempts baseDelay w)) \<Longrightarrow>
   delays (retryWithBackoff fn maxAttempts baseDelay w) ! k = api_calculateBackoffDelay (int k + 1) baseDelay"
  unfolding retryWithBackoff_def by (rule retry_loop_delays) simp_all

section \<open>Properties of the image generation hook\<close>

lemma length_normalizedPrompt: "length (normalizedPrompt p) = length (trim p)"
  by (simp add: normalizedPrompt_def toLowerCase_def)


lemma trim_empty: "trim [] = []" by (simp add: trim_def)




lemma begin_generation_history:
  "generationHistory (snd (begin_generation promptOverride forceRegenerate w)) = generationHistory w"
  by (simp add: begin_generation_def Let_def split: option.splits)

lemma begin_generation_requests:
  "requests (snd (begin_generation promptOverride forceRegenerate w)) = requests w"
  by (simp add: begin_generation_def Let_def split: option.splits)



lemma exec_loop_preserves:
  "(\<forall>v. P v \<longrightarrow> P (snd (operation v))) \<Longrightarrow> P w \<Longrightarrow>
   P (world (exec_loop operation maxRetries autoRetry baseDelay rnd currentAttempt w n ds))"
proof (induction operation maxRetries autoRetry baseDelay rnd currentAttempt w n ds rule: exec_loop.induct)
  case (1 operation maxRetries autoRetry baseDelay rnd currentAttempt w n ds)
  show ?case
  proof (cases "currentAttempt \<le> maxRetries")
    case False
    with "1.prems" show ?thesis by (simp add: exec_loop.simps)
  next
    case le: True
    obtain res w' where fw: "operation w = (res, w')" by (cases "operation w")
    have pw': "P w'" using "1.prems" fw by (metis snd_conv)
    show ?thesis
    proof (cases res)
      case (Inr result)
      with le fw pw' show ?thesis by (simp add: exec_loop.simps)
    next
      case (Inl error)
      define pe' where "pe' = processError error (Some (currentAttempt + 1)) (Some (maxRetries + 1))"
      show ?thesis
      proof (cases "currentAttempt + 1 > maxRetries \<or> \<not> retryable pe' \<or> \<not> autoRetry")
        case True
        with le fw Inl pw' show ?thesis by (auto simp add: exec_loop.simps Let_def pe'_def)
      next
        case False
        let ?ds' = "ds @ [calculateBackoffDelay (currentAttempt + 1) baseDelay (rnd (length ds))]"
        have unf: "exec_loop operation maxRetries autoRetry baseDelay rnd currentAttempt w n ds
              = exec_loop operation maxRetries autoRetry baseDelay rnd (currentAttempt + 1) w' (n + 1) ?ds'"
          using le fw Inl False by (simp add: exec_loop.simps[of _ _ _ _ _ currentAttempt] Let_def pe'_def)
        have "P (world (exec_loop operation maxRetries autoRetry baseDelay rnd (currentAttempt + 1) w' (n + 1) ?ds'))"
          using "1.IH"[OF le fw[symmetric] Inl refl refl _ "1.prems"(1) pw'] False
          by (simp add: pe'_def)
        then show ?thesis by (simp add: unf)
      qed
    qed
  qed
qed

lemma issue_request_history:
  "generationHistory (snd (issue_request w)) = generationHistory w"
  by (simp add: issue_request_def Let_def)

lemma settle_request_cases:
  "(\<exists>e. fst (settle_request p ident served t w) = Inl e
        \<and> generationHistory (snd (settle_request p ident served t w)) = generationHistory w)
   \<or> (\<exists>result. fst (settle_request p ident served t w) = Inr result
        \<and> generationHistory (snd (settle_request p ident served t w))
            = cacheResult t (generationHistory w) p result)"
proof (cases "ident < length (requests w) \<and> requests w ! ident = Aborted")
  case True
  then show ?thesis by (simp add: settle_request_def Let_def)
next
  case notab: False
  show ?thesis
  proof (cases served)
    case (FetchRejects e)
    with notab show ?thesis by (simp add: settle_request_def Let_def)
  next
    case (FetchResponds r)
    show ?thesis
    proof (cases "r_ok r")
      case False
      with notab FetchResponds show ?thesis by (simp add: settle_request_def Let_def)
    next
      case ok: True
      show ?thesis
      proof (cases "r_json r")
        case (Inl e)
        with notab FetchResponds ok show ?thesis by (simp add: settle_request_def Let_def)
      next
        case (Inr body)
        show ?thesis
        proof (cases "j_imageUrls body")
          case None
          with notab FetchResponds ok Inr show ?thesis by (simp add: settle_request_def Let_def)
        next
          case (Some urls)
          with notab FetchResponds ok Inr show ?thesis by (simp add: settle_request_def Let_def)
        qed
      qed
    qed
  qed
qed



lemma settle_request_history_ok:
  assumes "validatePrompt p = None" and "history_ok (generationHistory w)"
  shows "history_ok (generationHistory (snd (settle_request p ident served t w)))"
proof -
  have len: "3 \<le> length (normalizedPrompt p) \<and> length (normalizedPrompt p) \<le> 500"
    using assms(1) by (auto simp add: validatePrompt_def Let_def length_normalizedPrompt split: if_splits)
  have upd: "history_ok (cacheResult t (generationHistory w) p c)" for c
    using assms(2) len by (simp add: history_ok_def cacheResult_def)
  show ?thesis
    using settle_request_cases[of p ident served t w] assms(2) upd by auto
qed

lemma generateFn_history_ok:
  assumes "validatePrompt p = None" and "history_ok (generationHistory w)"
  shows "history_ok (generationHistory (snd (generateFn server p w)))"
proof -
  obtain ident w1 where i: "issue_request w = (ident, w1)" by (cases "issue_request w")
  obtain served t where sv: "server ident = (served, t)" by (cases "server ident")
  have "history_ok (generationHistory w1)" using issue_request_history[of w] i assms(2) by simp
  from settle_request_history_ok[OF assms(1) this, of ident served t] i sv
  show ?thesis by (simp add: generateFn_def)
qed






lemma generateImages_generating:
  assumes "begin_generation promptOverride forceRegenerate w = (Inr p', w')"
  shows "invocations (generateImages server maxRetries baseDelay rnd promptOverride forceRegenerate w)
           = invocations (executeWithErrorHandling (generateFn server p') maxRetries True baseDelay rnd w')"
    and "outcome (generateImages server maxRetries baseDelay rnd promptOverride forceRegenerate w)
           = outcome (executeWithErrorHandling (generateFn server p') maxRetries True baseDelay rnd w')"
    and "generationHistory (world (generateImages server maxRetries baseDelay rnd promptOverride forceRegenerate w))
           = generationHistory (world (executeWithErrorHandling (generateFn server p') maxRetries True baseDelay rnd w'))"
    and "requests (world (generateImages server maxRetries baseDelay rnd promptOverride forceRegenerate w))
           = requests (world (executeWithErrorHandling (generateFn server p') maxRetries True baseDelay rnd w'))"
  using assms by (simp_all add: generateImages_def Let_def split: sum.splits)

lemma generateImages_early:
  assumes "begin_generation promptOverride forceRegenerate w = (Inl early, w')"
  shows "generateImages server maxRetries baseDelay rnd promptOverride forceRegenerate w
         = \<lparr>outcome = Inr early, world = w', invocations = 0, delays = []\<rparr>"
  using assms by (simp add: generateImages_def)










lemma begin_generation_Inr_valid:
  assumes "begin_generation promptOverride forceRegenerate w = (Inr p', w')"
  shows "validatePrompt p' = None"
  using assms by (auto simp add: begin_generation_def Let_def split: option.splits if_splits)

lemma generateImages_history_ok:
  assumes "history_ok (generationHistory w)"
  shows "history_ok (generationHistory (world
           (generateImages server maxRetries baseDelay rnd promptOverride forceRegenerate w)))"
proof -
  obtain res w' where b: "begin_generation promptOverride forceRegenerate w = (res, w')"
    by (cases "begin_generation promptOverride forceRegenerate w")
  have hw': "history_ok (generationHistory w')"
    using begin_generation_history[of promptOverride forceRegenerate w] b assms by simp
  show ?thesis
  proof (cases res)
    case (Inl early)
    with b hw' show ?thesis by (simp add: generateImages_early)
  next
    case (Inr p')
    note g = generateImages_generating[OF b[unfolded Inr], of server maxRetries baseDelay rnd]
    have v: "validatePrompt p' = None" using begin_generation_Inr_valid b Inr by blast
    have step: "\<forall>v. history_ok (generationHistory v)
                  \<longrightarrow> history_ok (generationHistory (snd (generateFn server p' v)))"
      using generateFn_history_ok[OF v] by blast
    from exec_loop_preserves[where P="\<lambda>v. history_ok (generationHistory v)", OF step hw']
    show ?thesis using g(3) by (simp add: executeWithErrorHandling_def)
  qed
qed







section \<open>Concurrent callers of the hook\<close>

lemma aborted_current_none_in_flight:
  assumes "current_ok w"
  shows "\<forall>i < length (requests w).
           (case currentRequest w of None \<Rightarrow> requests w | Some c \<Rightarrow> abort_request c (requests w)) ! i
             \<noteq> InFlight"
proof (intro allI impI)
  fix i assume i: "i < length (requests w)"
  show "(case currentRequest w of None \<Rightarrow> requests w | Some c \<Rightarrow> abort_request c (requests w)) ! i
          \<noteq> InFlight"
  proof (cases "currentRequest w")
    case None
    with assms i show ?thesis by (auto simp add: current_ok_def)
  next
    case (Some c)
    show ?thesis
    proof (cases "i = c")
      case True
      with Some i show ?thesis by (simp add: abort_request_def)
    next
      case False
      with assms i Some have "requests w ! i \<noteq> InFlight" by (auto simp add: current_ok_def)
      with Some False show ?thesis by (simp add: abort_request_def)
    qed
  qed
qed

lemma current_ok_issue:
  assumes "current_ok w"
  shows "current_ok (snd (issue_request w))"
proof -
  let ?rs = "case currentRequest w of None \<Rightarrow> requests w | Some c \<Rightarrow> abort_request c (requests w)"
  have len: "length ?rs = length (requests w)"
    by (simp add: abort_request_def split: option.splits)
  have none: "\<forall>i < length ?rs. ?rs ! i \<noteq> InFlight"
    using aborted_current_none_in_flight[OF assms] len by simp
  have r: "requests (snd (issue_request w)) = ?rs @ [InFlight]"
    and c: "currentRequest (snd (issue_request w)) = Some (length ?rs)"
    by (simp_all add: issue_request_def Let_def)
  show ?thesis
    unfolding current_ok_def r c using none by (simp add: nth_append)
qed

lemma begin_generation_currentRequest:
  "currentRequest (snd (begin_generation promptOverride forceRegenerate w)) = currentRequest w"
  by (simp add: begin_generation_def Let_def split: option.splits)

lemma current_ok_begin:
  "current_ok w \<Longrightarrow> current_ok (snd (begin_generation promptOverride forceRegenerate w))"
  by (simp add: current_ok_def begin_generation_currentRequest begin_generation_requests)

lemma settle_request_requests:
  "requests (snd (settle_request p ident served t w))
     = (if ident < length (requests w) \<and> requests w ! ident = Aborted then requests w
        else (requests w)[ident := Done])
   \<and> currentRequest (snd (settle_request p ident served t w))
     = (if currentRequest w = Some ident then None else currentRequest w)"
proof (cases "ident < length (requests w) \<and> requests w ! ident = Aborted")
  case True
  then show ?thesis by (simp add: settle_request_def Let_def)
next
  case notab: False
  show ?thesis
  proof (cases served)
    case (FetchRejects e)
    with notab show ?thesis by (simp add: settle_request_def Let_def)
  next
    case (FetchResponds r)
    show ?thesis
    proof (cases "r_ok r")
      case False
      with notab FetchResponds show ?thesis by (simp add: settle_request_def Let_def)
    next
      case ok: True
      show ?thesis
      proof (cases "r_json r")
        case (Inl e)
        with notab FetchResponds ok show ?thesis by (simp add: settle_request_def Let_def)
      next
        case (Inr body)
        show ?thesis
        proof (cases "j_imageUrls body")
          case None
          with notab FetchResponds ok Inr show ?thesis by (simp add: settle_request_def Let_def)
        next
          case (Some urls)
          with notab FetchResponds ok Inr show ?thesis by (simp add: settle_request_def Let_def)
        qed
      qed
    qed
  qed
qed

lemma current_ok_settle:
  assumes "current_ok w"
  shows "current_ok (snd (settle_request p ident served t w))"
proof -
  note sr = settle_request_requests[of p ident served t w]
  show ?thesis
  proof (cases "ident < length (requests w) \<and> requests w ! ident = Aborted")
    case True
    then have r: "requests (snd (settle_request p ident served t w)) = requests w" using sr by simp
    have ne: "currentRequest w \<noteq> Some ident \<or> requests w ! ident \<noteq> InFlight" using True by simp
    show ?thesis
      unfolding current_ok_def r using assms sr True
      by (auto simp add: current_ok_def)
  next
    case False
    then have r: "requests (snd (settle_request p ident served t w)) = (requests w)[ident := Done]"
      using sr by auto
    show ?thesis
      unfolding current_ok_def r
    proof (intro allI impI)
      fix i assume i: "i < length ((requests w)[ident := Done])"
        and f: "(requests w)[ident := Done] ! i = InFlight"
      then have ne: "i \<noteq> ident" by (auto simp add: nth_list_update)
      with i f have "requests w ! i = InFlight" by simp
      with assms i have "currentRequest w = Some i" by (simp add: current_ok_def)
      then show "currentRequest (snd (settle_request p ident served t w)) = Some i"
        using sr ne by simp
    qed
  qed
qed

lemma current_ok_cancel:
  assumes "current_ok w"
  shows "current_ok (cancelGeneration w)"
proof (cases "currentRequest w")
  case None
  with assms show ?thesis by (simp add: current_ok_def cancelGeneration_def)
next
  case (Some c)
  have "\<forall>i < length (requests w). abort_request c (requests w) ! i \<noteq> InFlight"
    using aborted_current_none_in_flight[OF assms] Some by simp
  moreover have "length (abort_request c (requests w)) = length (requests w)"
    by (simp add: abort_request_def)
  ultimately show ?thesis using Some by (simp add: current_ok_def cancelGeneration_def)
qed

lemma current_ok_step: "current_ok w \<Longrightarrow> current_ok (step w ev)"
proof (cases ev)
  case (Start po f)
  assume a: "current_ok w"
  obtain res w' where b: "begin_generation po f w = (res, w')" by (cases "begin_generation po f w")
  have "current_ok w'" using current_ok_begin[OF a, of po f] b by simp
  then show ?thesis using Start b current_ok_issue[of w'] by (cases res) simp_all
next
  case Retry
  assume "current_ok w"
  then show ?thesis using Retry current_ok_issue by simp
next
  case (Settle p ident served t)
  assume "current_ok w"
  then show ?thesis using Settle current_ok_settle by simp
next
  case Cancel
  assume "current_ok w"
  then show ?thesis using Cancel current_ok_cancel by simp
qed

lemma current_ok_run: "current_ok w \<Longrightarrow> current_ok (run_events w evs)"
  unfolding run_events_def
  by (induction evs arbitrary: w) (simp_all add: current_ok_step)

lemma current_ok_in_flight:
  assumes "current_ok w"
  shows "length (in_flight w) \<le> 1"
proof (cases "currentRequest w")
  case None
  with assms have "in_flight w = []"
    by (auto simp add: in_flight_def current_ok_def filter_empty_conv)
  then show ?thesis by simp
next
  case (Some c)
  have d: "distinct (in_flight w)" by (simp add: in_flight_def)
  have "set (in_flight w) \<subseteq> {c}"
    using assms Some by (auto simp add: in_flight_def current_ok_def)
  then have "card (set (in_flight w)) \<le> card {c}"
    by (intro card_mono) simp_all
  then show ?thesis using d by (simp add: distinct_card)
qed

lemma at_most_one_request_in_flight:
  "length (in_flight (run_events initial_world evs)) \<le> 1"
proof -
  have "current_ok initial_world" by (simp add: current_ok_def initial_world_def)
  then show ?thesis by (intro current_ok_in_flight current_ok_run)
qed

lemma deduplicateRequests_shares_pending:
  assumes "deduplicatedRequest key st = (p1, st1)" and "deduplicatedRequest key st1 = (p2, st2)"
    and "pendingRequests st key = None"
  shows "p2 = p1 \<and> st2 = st1 \<and> request_count st2 = request_count st + 1"
  using assms by (auto simp add: deduplicatedRequest_def)

lemma deduplicateRequests_after_settling:
  assumes "deduplicatedRequest key (request_settled key st) = (p, st')"
  shows "p = request_count st \<and> request_count st' = request_count st + 1"
  using assms by (auto simp add: deduplicatedRequest_def request_settled_def)

text \<open>
  Claim C7, evaluated on the hook. Two callers start a generation for the same normalized
  key, the second before the request of the first has settled. The hook issues two
  requests: the second caller's \<open>generateFn\<close> aborts the request of the first and issues
  its own, and the first caller's request then rejects with the abort error instead of
  resolving to the second caller's result. The abort error is classified as retryable, so
  the first caller's retry loop invokes \<open>generateFn\<close> again, which aborts the request of
  the second caller and issues a third. (Lemma \<open>at_most_one_request_in_flight\<close> is what
  the hook does guarantee; lemma \<open>deduplicateRequests_shares_pending\<close> shows the sharing of
  one pending promise per key in \<open>deduplicateRequests\<close>, which the hook does not call.)
\<close>

theorem concurrent_callers_issue_two_requests:
  "normalizedPrompt ''a beautiful sunset'' = normalizedPrompt '' A Beautiful Sunset ''
   \<and> requests (run_events initial_world
          [Start (Some ''a beautiful sunset'') False, Start (Some '' A Beautiful Sunset '') False])
       = [Aborted, InFlight]
   \<and> fst (settle_request ''a beautiful sunset'' 0 (fst (good_server 0)) 5000
          (run_events initial_world
             [Start (Some ''a beautiful sunset'') False, Start (Some '' A Beautiful Sunset '') False]))
       = Inl abort_error
   \<and> retryable (processError abort_error (Some 1) (Some 4))
   \<and> requests (run_events initial_world
          [Start (Some ''a beautiful sunset'') False, Start (Some '' A Beautiful Sunset '') False,
           Settle ''a beautiful sunset'' 0 (fst (good_server 0)) 5000, Retry])
       = [Aborted, Aborted, InFlight]"
  by code_simp

section \<open>Properties of the fan-out generation\<close>




































end
